theory Spec2Isabelle
  imports Main "HOL-Library.AList"
begin

section \<open>Python values, exceptions and the environment of a call\<close>

text \<open>
  The module \<^verbatim>\<open>ezstat.py\<close> is dynamically typed: a statistic definition, a subject, an
  attribute and a computed statistic are all Python objects. They are modelled by one
  datatype. A float is kept as mantissa and binary exponent (or an infinity or a NaN);
  the module never computes with it, it only passes it on and tests its truth value.
  \<open>VFun c\<close> is a callable object (a function, a bound method, a class, an instance with
  \<^verbatim>\<open>__call__\<close>) and \<open>VObj a\<close> any other object, both named by an identifier whose
  behaviour the environment gives.
\<close>

datatype pyfloat = Finite int int | Infinity bool | NaN

datatype pyval =
    VNone
  | VBool bool
  | VInt int
  | VFloat pyfloat
  | VStr string
  | VTuple "pyval list"
  | VList "pyval list"
  | VFun nat
  | VObj nat

text \<open>
  Exceptions are values. \<open>NameError n\<close> is Python's
  \<^verbatim>\<open>NameError: name 'n' is not defined\<close>; \<open>Raised n\<close> stands for any other exception a
  user-supplied callable raises.
\<close>

datatype exn =
    ValueError string
  | TypeError string
  | NameError string
  | AttributeError string
  | Raised string

text \<open>
  What the module does not define itself is a parameter of the model:
  \<^item> \<open>py_getattr\<close>: attribute lookup, \<open>None\<close> where Python's \<^verbatim>\<open>hasattr\<close> is false;
  \<^item> \<open>py_call\<close>: what calling the callable \<open>c\<close> on an argument list does. A callable may
    have side effects and may depend on state, so it transforms a world \<open>'w\<close>; it may
    raise, so it returns a sum;
  \<^item> \<open>py_iter\<close>: the elements an object of a user-defined or library class yields when
    iterated, \<open>None\<close> where it is not iterable;
  \<^item> \<open>py_globals\<close>: the names bound in the module's namespace besides the three the
    module defines (\<^verbatim>\<open>_call\<close>, \<^verbatim>\<open>Statistics\<close>, \<^verbatim>\<open>MappingStatistics\<close>) and the built-ins;
  \<^item> \<open>py_format\<close>: \<^verbatim>\<open>format(v, '')\<close>, the text an f-string puts for \<^verbatim>\<open>{v}\<close>;
  \<^item> \<open>py_truth\<close>: the truth test of an object of a user-defined or library class, which
    calls the class's \<^verbatim>\<open>__bool__\<close>, or else its \<^verbatim>\<open>__len__\<close>, and is true when the class
    has neither. These are user code, so like a call the test transforms the world and
    may raise.
\<close>

record 'w env =
  py_getattr :: "pyval \<Rightarrow> string \<Rightarrow> pyval option"
  py_call :: "nat \<Rightarrow> pyval list \<Rightarrow> 'w \<Rightarrow> (exn + pyval) \<times> 'w"
  py_iter :: "nat \<Rightarrow> pyval list option"
  py_globals :: "string \<Rightarrow> pyval option"
  py_format :: "pyval \<Rightarrow> string"
  py_truth :: "pyval \<Rightarrow> 'w \<Rightarrow> (exn + bool) \<times> 'w"

text \<open>
  The file has no \<^verbatim>\<open>import\<close> statement and no assignment at module level: after
  \<^verbatim>\<open>import ezstat\<close> its namespace binds nothing besides its own three definitions.
\<close>

definition module_namespace :: "string \<Rightarrow> pyval option" where
  "module_namespace = (\<lambda>n. None)"

text \<open>\<^verbatim>\<open>callable(f)\<close> and \<^verbatim>\<open>isinstance(r, tuple)\<close>.\<close>

fun callable :: "pyval \<Rightarrow> bool" where
  "callable (VFun c) = True"
| "callable v = False"

fun is_tuple :: "pyval \<Rightarrow> bool" where
  "is_tuple (VTuple vs) = True"
| "is_tuple v = False"

fun tuple_items :: "pyval \<Rightarrow> pyval list" where
  "tuple_items (VTuple vs) = vs"
| "tuple_items v = []"

text \<open>
  The truth test of \<^verbatim>\<open>if v:\<close>. \<^verbatim>\<open>None\<close>, \<^verbatim>\<open>False\<close>, zero and the empty string, tuple and
  list are false and the other built-in values true, with no effect; a NaN and the
  infinities are true. For the objects \<open>VFun c\<close> and \<open>VObj a\<close> the test is their class's.
\<close>

fun truth_value :: "'w env \<Rightarrow> pyval \<Rightarrow> 'w \<Rightarrow> (exn + bool) \<times> 'w" where
  "truth_value env VNone w = (Inr False, w)"
| "truth_value env (VBool b) w = (Inr b, w)"
| "truth_value env (VInt i) w = (Inr (i \<noteq> 0), w)"
| "truth_value env (VFloat (Finite m e)) w = (Inr (m \<noteq> 0), w)"
| "truth_value env (VFloat x) w = (Inr True, w)"
| "truth_value env (VStr s) w = (Inr (s \<noteq> []), w)"
| "truth_value env (VTuple vs) w = (Inr (vs \<noteq> []), w)"
| "truth_value env (VList vs) w = (Inr (vs \<noteq> []), w)"
| "truth_value env (VFun c) w = py_truth env (VFun c) w"
| "truth_value env (VObj a) w = py_truth env (VObj a) w"

text \<open>Calling an object: a \<^verbatim>\<open>TypeError\<close> when it is not callable.\<close>

fun call_value :: "'w env \<Rightarrow> pyval \<Rightarrow> pyval list \<Rightarrow> 'w \<Rightarrow> (exn + pyval) \<times> 'w" where
  "call_value env (VFun c) args w = py_call env c args w"
| "call_value env v args w = (Inl (TypeError ''object is not callable''), w)"

section \<open>The dispatcher \<^verbatim>\<open>_call\<close>\<close>

text \<open>
  \<^verbatim>\<open>raise ValueError(f"the object has no attribute '{s}'")\<close>: the spec's AttributeMissing.
\<close>

definition AttributeMissing :: "string \<Rightarrow> exn" where
  "AttributeMissing s = ValueError (''the object has no attribute '' @ [CHR 0x27] @ s @ [CHR 0x27])"

text \<open>
  \<^verbatim>\<open>raise TypeError(f"The type of the value corresponding to key `{k}` is not permissible!")\<close>:
  the spec's UnsupportedDefinitionType. The f-string reads \<^verbatim>\<open>k\<close>, which is neither a
  parameter nor a local of \<^verbatim>\<open>_call\<close>, so Python looks it up in the module's namespace
  before the exception is built.
\<close>

definition UnsupportedDefinitionType :: "string \<Rightarrow> exn" where
  "UnsupportedDefinitionType k =
     TypeError (''The type of the value corresponding to key `'' @ k @ ''` is not permissible!'')"

text \<open>
  The branches in the order of the source: \<^verbatim>\<open>isinstance(s, str)\<close>, then
  \<^verbatim>\<open>callable(s)\<close>, then \<^verbatim>\<open>isinstance(s, (int, float, tuple))\<close> (a \<^verbatim>\<open>bool\<close> is an
  \<^verbatim>\<open>int\<close> in Python), then the \<^verbatim>\<open>else\<close>.
\<close>

fun ezstat_call :: "'w env \<Rightarrow> pyval \<Rightarrow> pyval \<Rightarrow> 'w \<Rightarrow> (exn + pyval) \<times> 'w" where
  "ezstat_call env (VStr s) obj w =
     (case py_getattr env obj s of
        None \<Rightarrow> (Inl (AttributeMissing s), w)
      | Some f \<Rightarrow> (if callable f then call_value env f [] w else (Inr f, w)))"
| "ezstat_call env (VFun c) obj w = call_value env (VFun c) [obj] w"
| "ezstat_call env (VBool b) obj w = (Inr (VBool b), w)"
| "ezstat_call env (VInt i) obj w = (Inr (VInt i), w)"
| "ezstat_call env (VFloat x) obj w = (Inr (VFloat x), w)"
| "ezstat_call env (VTuple vs) obj w = (Inr (VTuple vs), w)"
| "ezstat_call env s obj w =
     (case py_globals env ''k'' of
        None \<Rightarrow> (Inl (NameError ''k''), w)
      | Some k \<Rightarrow> (Inl (UnsupportedDefinitionType (py_format env k)), w))"

section \<open>\<^verbatim>\<open>Statistics\<close>: a dict of definitions\<close>

text \<open>
  \<^verbatim>\<open>Statistics\<close> extends \<^verbatim>\<open>dict\<close>: its state is the dict's entries in insertion order, an
  association list with one pair per name. The result \<^verbatim>\<open>res\<close> is a dict as well, and
  \<^verbatim>\<open>res[k] = v\<close> is \<^const>\<open>AList.update\<close>: a name already present keeps its place and
  gets the new value, a new name goes to the end.
\<close>

type_synonym statistics = "(string \<times> pyval) list"

type_synonym result_mapping = "(string \<times> pyval) list"

text \<open>\<^verbatim>\<open>f'{i}'\<close> for the index \<^verbatim>\<open>i\<close> that \<^verbatim>\<open>enumerate\<close> counts: its decimal digits.\<close>

definition digit :: "nat \<Rightarrow> char" where
  "digit d = ''0123456789'' ! d"

fun str_nat :: "nat \<Rightarrow> string" where
  "str_nat n = (if n < 10 then [digit n] else str_nat (n div 10) @ [digit (n mod 10)])"

declare str_nat.simps [simp del]

text \<open>\<^verbatim>\<open>f'{k}-{i}'\<close> for a name \<^verbatim>\<open>k\<close> that is text.\<close>

definition split_name :: "string \<Rightarrow> nat \<Rightarrow> string" where
  "split_name k i = k @ ''-'' @ str_nat i"

text \<open>\<^verbatim>\<open>for i, ri in enumerate(r): res[f'{k}-{i}'] = ri\<close>.\<close>

definition store_split :: "string \<Rightarrow> pyval list \<Rightarrow> result_mapping \<Rightarrow> result_mapping" where
  "store_split k r res = fold (\<lambda>(i, ri). AList.update (split_name k i) ri) (enumerate 0 r) res"

text \<open>The body of the loop after \<^verbatim>\<open>r = _call(s, obj)\<close>.\<close>

definition store :: "bool \<Rightarrow> string \<Rightarrow> pyval \<Rightarrow> result_mapping \<Rightarrow> result_mapping" where
  "store split k r res =
     (if split \<and> is_tuple r then store_split k (tuple_items r) res
      else AList.update k r res)"

text \<open>
  \<^verbatim>\<open>for k, s in self.items(): ...\<close> from the entries still to visit, the result so far and
  the world so far. An exception leaves the loop and the function at once.
\<close>

fun do_loop ::
  "'w env \<Rightarrow> pyval \<Rightarrow> bool \<Rightarrow> statistics \<Rightarrow> result_mapping \<Rightarrow> 'w \<Rightarrow> (exn + result_mapping) \<times> 'w"
where
  "do_loop env obj split [] res w = (Inr res, w)"
| "do_loop env obj split ((k, s) # rest) res w =
     (case ezstat_call env s obj w of
        (Inl e, w') \<Rightarrow> (Inl e, w')
      | (Inr r, w') \<Rightarrow> do_loop env obj split rest (store split k r res) w')"

definition Statistics_do ::
  "'w env \<Rightarrow> statistics \<Rightarrow> pyval \<Rightarrow> bool \<Rightarrow> 'w \<Rightarrow> (exn + result_mapping) \<times> 'w"
where
  "Statistics_do env self obj split w = do_loop env obj split self [] w"

section \<open>\<^verbatim>\<open>MappingStatistics\<close>: a key and a dict of definitions\<close>

record mapping_statistics =
  key :: pyval
  items :: statistics

text \<open>
  \<^verbatim>\<open>for k in obj\<close>: tuples, lists and strings yield their elements; an object of another
  class yields what the environment says; \<^verbatim>\<open>None\<close>, numbers and functions are not
  iterable.
\<close>

fun elements :: "'w env \<Rightarrow> pyval \<Rightarrow> pyval list option" where
  "elements env (VTuple vs) = Some vs"
| "elements env (VList vs) = Some vs"
| "elements env (VStr s) = Some (map (\<lambda>c. VStr [c]) s)"
| "elements env (VObj a) = py_iter env a"
| "elements env v = None"

text \<open>\<^verbatim>\<open>[_call(self.key, k) for k in obj]\<close>, element by element, stopping at an exception.\<close>

fun project :: "'w env \<Rightarrow> pyval \<Rightarrow> pyval list \<Rightarrow> 'w \<Rightarrow> (exn + pyval list) \<times> 'w" where
  "project env ky [] w = (Inr [], w)"
| "project env ky (x # xs) w =
     (case ezstat_call env ky x w of
        (Inl e, w') \<Rightarrow> (Inl e, w')
      | (Inr v, w') \<Rightarrow>
          (case project env ky xs w' of
             (Inl e, w'') \<Rightarrow> (Inl e, w'')
           | (Inr vs, w'') \<Rightarrow> (Inr (v # vs), w'')))"

text \<open>
  \<^verbatim>\<open>if self.key: obj = np.array([...])\<close> and then \<^verbatim>\<open>super().do(obj, split=split)\<close>.
  The \<^verbatim>\<open>if\<close> is a truth test of the key, not a comparison with \<^verbatim>\<open>None\<close>. Python evaluates
  the call \<^verbatim>\<open>np.array([...])\<close> from the left: the global \<^verbatim>\<open>np\<close>, its
  attribute \<^verbatim>\<open>array\<close>, then the list, then the call.
\<close>

definition MappingStatistics_do ::
  "'w env \<Rightarrow> mapping_statistics \<Rightarrow> pyval \<Rightarrow> bool \<Rightarrow> 'w \<Rightarrow> (exn + result_mapping) \<times> 'w"
where
  "MappingStatistics_do env self obj split w =
     (case truth_value env (key self) w of
        (Inl e, w0) \<Rightarrow> (Inl e, w0)
      | (Inr b, w0) \<Rightarrow>
          if b then
            (case py_globals env ''np'' of
               None \<Rightarrow> (Inl (NameError ''np''), w0)
             | Some np \<Rightarrow>
                 (case py_getattr env np ''array'' of
                    None \<Rightarrow> (Inl (AttributeError ''array''), w0)
                  | Some array \<Rightarrow>
                      (case elements env obj of
                         None \<Rightarrow> (Inl (TypeError ''object is not iterable''), w0)
                       | Some xs \<Rightarrow>
                           (case project env (key self) xs w0 of
                              (Inl e, w') \<Rightarrow> (Inl e, w')
                            | (Inr vs, w') \<Rightarrow>
                                (case call_value env array [VList vs] w' of
                                   (Inl e, w'') \<Rightarrow> (Inl e, w'')
                                 | (Inr obj', w'') \<Rightarrow>
                                     Statistics_do env (items self) obj' split w'')))))
          else Statistics_do env (items self) obj split w0)"

section \<open>Predicates of the specification and an example environment\<close>

text \<open>
  The definitions that the third branch of \<^verbatim>\<open>_call\<close> accepts:
  \<^verbatim>\<open>isinstance(s, (int, float, tuple))\<close> for an \<^verbatim>\<open>s\<close> that is neither text nor callable.
\<close>

fun is_constant :: "pyval \<Rightarrow> bool" where
  "is_constant (VBool b) = True"
| "is_constant (VInt i) = True"
| "is_constant (VFloat x) = True"
| "is_constant (VTuple vs) = True"
| "is_constant v = False"

fun is_text :: "pyval \<Rightarrow> bool" where
  "is_text (VStr s) = True"
| "is_text v = False"

text \<open>
  Purity. A call is pure when it leaves the world as it found it and returns the same
  result in every world. \<open>invoked\<close> lists the calls that evaluating one definition on a
  subject makes: the definition itself on the subject, or the subject's attribute on no
  arguments. A set has pure definitions on a subject when all these calls are pure.
\<close>

definition pure_call :: "'w env \<Rightarrow> nat \<Rightarrow> pyval list \<Rightarrow> bool" where
  "pure_call env c args = (\<forall>w w'. py_call env c args w = (fst (py_call env c args w'), w))"

fun invoked :: "'w env \<Rightarrow> pyval \<Rightarrow> pyval \<Rightarrow> (nat \<times> pyval list) list" where
  "invoked env (VStr s) obj =
     (case py_getattr env obj s of Some (VFun c) \<Rightarrow> [(c, [])] | _ \<Rightarrow> [])"
| "invoked env (VFun c) obj = [(c, [obj])]"
| "invoked env s obj = []"

definition pure_definitions :: "'w env \<Rightarrow> statistics \<Rightarrow> pyval \<Rightarrow> bool" where
  "pure_definitions env S obj =
     (\<forall>(k, s) \<in> set S. \<forall>(c, args) \<in> set (invoked env s obj). pure_call env c args)"

text \<open>
  An environment to run the model in, after the example of the module's docstring. The
  subject \<open>VObj 0\<close> is a table with the attribute \<^verbatim>\<open>shape\<close>, the tuple \<^verbatim>\<open>(100, 100)\<close>, and
  the method \<^verbatim>\<open>mean\<close>, the callable \<open>1\<close>, which returns \<^verbatim>\<open>0.5\<close>; iterating it yields its
  two rows. Callable \<open>2\<close> returns the number of its arguments, callable \<open>3\<close> raises
  \<^verbatim>\<open>ZeroDivisionError\<close>, and every other callable counts its calls in the world, a natural
  number. The callable \<open>5\<close> is false as a truth value (an instance with \<^verbatim>\<open>__call__\<close> and a
  \<^verbatim>\<open>__len__\<close> that returns 0), every other object is true. The namespace is the one the
  module has when imported.
\<close>

definition example_env :: "nat env" where
  "example_env =
     \<lparr> py_getattr = (\<lambda>obj n.
          if obj = VObj 0 \<and> n = ''shape'' then Some (VTuple [VInt 100, VInt 100])
          else if obj = VObj 0 \<and> n = ''mean'' then Some (VFun 1)
          else None),
       py_call = (\<lambda>c args w.
          if c = 1 then (Inr (VFloat (Finite 1 (- 1))), w)
          else if c = 2 then (Inr (VInt (int (length args))), w)
          else if c = 3 then (Inl (Raised ''ZeroDivisionError''), w)
          else (Inr (VInt (int w)), Suc w)),
       py_iter = (\<lambda>a. if a = 0 then Some [VObj 1, VObj 2] else None),
       py_globals = module_namespace,
       py_format = (\<lambda>v. ''?''),
       py_truth = (\<lambda>v w. (Inr (v \<noteq> VFun 5), w)) \<rparr>"

section \<open>Names of split entries\<close>

text \<open>
  The decimal digits of a number determine it and hold no dash, so \<^verbatim>\<open>f'{k}-{i}'\<close>
  determines both \<^verbatim>\<open>k\<close> and \<^verbatim>\<open>i\<close>.
\<close>

lemma digit_inj: "a < 10 \<Longrightarrow> b < 10 \<Longrightarrow> digit a = digit b \<Longrightarrow> a = b"
  unfolding digit_def
  by (subst (asm) nth_eq_iff_index_eq) simp_all

lemma digit_mem: "d < 10 \<Longrightarrow> digit d \<in> set ''0123456789''"
  unfolding digit_def by (rule nth_mem) simp

lemma str_nat_digits: "set (str_nat n) \<subseteq> set ''0123456789''"
proof (induction n rule: str_nat.induct)
  case (1 n)
  show ?case
  proof (cases "n < 10")
    case True
    with digit_mem [of n] show ?thesis by (subst str_nat.simps) simp
  next
    case False
    have "n mod 10 < 10" by simp
    from digit_mem [OF this] "1" [OF False] False show ?thesis
      by (subst str_nat.simps) simp
  qed
qed

lemma str_nat_no_dash: "CHR ''-'' \<notin> set (str_nat n)"
  using str_nat_digits [of n] by auto

lemma str_nat_not_Nil: "str_nat n \<noteq> []"
  by (subst str_nat.simps) simp

lemma str_nat_inj: "str_nat n = str_nat m \<Longrightarrow> n = m"
proof (induction n arbitrary: m rule: str_nat.induct)
  case (1 n)
  show ?case
  proof (cases "n < 10")
    case n: True
    show ?thesis
    proof (cases "m < 10")
      case True
      with n "1.prems" have "digit n = digit m"
        by (simp add: str_nat.simps [of n] str_nat.simps [of m])
      with n True show ?thesis by (rule digit_inj [rotated 2, rotated])
    next
      case False
      with n "1.prems" str_nat_not_Nil [of "m div 10"] show ?thesis
        by (simp add: str_nat.simps [of n] str_nat.simps [of m])
    qed
  next
    case n: False
    show ?thesis
    proof (cases "m < 10")
      case True
      with n "1.prems" str_nat_not_Nil [of "n div 10"] show ?thesis
        by (simp add: str_nat.simps [of n] str_nat.simps [of m])
    next
      case False
      with n "1.prems" have eq: "str_nat (n div 10) = str_nat (m div 10)"
        and d: "digit (n mod 10) = digit (m mod 10)"
        by (simp_all add: str_nat.simps [of n] str_nat.simps [of m])
      from "1.IH" [OF n eq] have "n div 10 = m div 10" .
      moreover from d have "n mod 10 = m mod 10" by (intro digit_inj) simp_all
      ultimately show ?thesis by (metis div_mult_mod_eq)
    qed
  qed
qed

lemma first_occurrence_unique:
  "a \<notin> set xs \<Longrightarrow> a \<notin> set xs' \<Longrightarrow> xs @ a # ys = xs' @ a # ys' \<Longrightarrow> xs = xs' \<and> ys = ys'"
proof (induction xs arbitrary: xs')
  case Nil
  then show ?case by (cases xs') auto
next
  case (Cons c cs)
  then show ?case by (cases xs') auto
qed

lemma split_name_eq_iff: "split_name k i = split_name k' j \<longleftrightarrow> k = k' \<and> i = j"
proof
  assume "split_name k i = split_name k' j"
  then have "rev (k @ CHR ''-'' # str_nat i) = rev (k' @ CHR ''-'' # str_nat j)"
    by (simp add: split_name_def)
  then have "rev (str_nat i) @ CHR ''-'' # rev k = rev (str_nat j) @ CHR ''-'' # rev k'"
    by simp
  then have "rev (str_nat i) = rev (str_nat j) \<and> rev k = rev k'"
    by (rule first_occurrence_unique [rotated 2]) (simp_all add: str_nat_no_dash)
  then show "k = k' \<and> i = j" by (auto dest: str_nat_inj)
qed simp

lemma split_name_neq: "split_name k i \<noteq> k"
  by (simp add: split_name_def)

section \<open>The loop of \<^verbatim>\<open>Statistics.do\<close>\<close>

text \<open>The loop over two lists in a row is the loop over the first, then over the second.\<close>

lemma do_loop_append:
  "do_loop env x split (pre @ post) res w =
     (case do_loop env x split pre res w of
        (Inl e, w1) \<Rightarrow> (Inl e, w1)
      | (Inr res1, w1) \<Rightarrow> do_loop env x split post res1 w1)"
  by (induction pre arbitrary: res w) (auto split: prod.splits sum.splits)

text \<open>
  What the stores do to the result: a new name goes to the end, and entries under names
  that a store does not write keep their values and their order.
\<close>

lemma update_fresh: "k \<notin> fst ` set al \<Longrightarrow> AList.update k v al = al @ [(k, v)]"
  by (induction al) auto

lemma fold_update_fresh:
  "distinct (map fst ps) \<Longrightarrow> \<forall>p \<in> set ps. split_name k (fst p) \<notin> fst ` set res \<Longrightarrow>
   fold (\<lambda>(i, ri). AList.update (split_name k i) ri) ps res =
     res @ map (\<lambda>(i, ri). (split_name k i, ri)) ps"
proof (induction ps arbitrary: res)
  case Nil
  then show ?case by simp
next
  case (Cons p ps)
  obtain i v where p: "p = (i, v)" by (cases p)
  from Cons.prems p have fresh: "split_name k i \<notin> fst ` set res" by simp
  have "\<forall>q \<in> set ps. split_name k (fst q) \<notin> fst ` set (res @ [(split_name k i, v)])"
  proof
    fix q assume q: "q \<in> set ps"
    with Cons.prems(1) p have "fst q \<noteq> i" by auto
    with q Cons.prems(2) show "split_name k (fst q) \<notin> fst ` set (res @ [(split_name k i, v)])"
      by (simp add: split_name_eq_iff)
  qed
  with Cons.IH [of "res @ [(split_name k i, v)]"] Cons.prems(1) fresh p show ?case
    by (simp add: update_fresh)
qed

lemma store_split_fresh:
  "\<forall>i<length vs. split_name k i \<notin> fst ` set res \<Longrightarrow>
   store_split k vs res = res @ map (\<lambda>(i, ri). (split_name k i, ri)) (enumerate 0 vs)"
  unfolding store_split_def
  by (rule fold_update_fresh) (auto simp: in_set_enumerate_eq)

lemma filter_update_frame:
  "k \<notin> N \<Longrightarrow> filter (\<lambda>p. fst p \<in> N) (AList.update k v al) = filter (\<lambda>p. fst p \<in> N) al"
  by (induction al) auto

lemma filter_store_split_frame:
  "\<forall>j. split_name k j \<notin> N \<Longrightarrow>
   filter (\<lambda>p. fst p \<in> N) (store_split k vs res) = filter (\<lambda>p. fst p \<in> N) res"
proof -
  assume N: "\<forall>j. split_name k j \<notin> N"
  have "filter (\<lambda>p. fst p \<in> N) (fold (\<lambda>(i, ri). AList.update (split_name k i) ri) ps res) =
        filter (\<lambda>p. fst p \<in> N) res" for ps
    using N by (induction ps arbitrary: res) (auto simp: filter_update_frame)
  then show ?thesis by (simp add: store_split_def)
qed

lemma filter_store_frame:
  "(if split \<and> is_tuple r then \<forall>j. split_name k j \<notin> N else k \<notin> N) \<Longrightarrow>
   filter (\<lambda>p. fst p \<in> N) (store split k r res) = filter (\<lambda>p. fst p \<in> N) res"
  by (simp add: store_def filter_update_frame filter_store_split_frame split: if_splits)

lemma do_loop_frame:
  "do_loop env x split S res w = (Inr res', w') \<Longrightarrow>
   \<forall>k' \<in> fst ` set S. k' \<notin> N \<and> (split \<longrightarrow> (\<forall>j. split_name k' j \<notin> N)) \<Longrightarrow>
   filter (\<lambda>p. fst p \<in> N) res' = filter (\<lambda>p. fst p \<in> N) res"
proof (induction S arbitrary: res w)
  case Nil
  then show ?case by simp
next
  case (Cons p S)
  obtain k' s where p: "p = (k', s)" by (cases p)
  from Cons.prems(1) p obtain r w1 where
    rest: "do_loop env x split S (store split k' r res) w1 = (Inr res', w')"
    by (auto split: prod.splits sum.splits)
  from Cons.prems(2) p have here: "k' \<notin> N" "split \<longrightarrow> (\<forall>j. split_name k' j \<notin> N)"
    and later: "\<forall>k' \<in> fst ` set S. k' \<notin> N \<and> (split \<longrightarrow> (\<forall>j. split_name k' j \<notin> N))"
    by auto
  from here have "filter (\<lambda>p. fst p \<in> N) (store split k' r res) = filter (\<lambda>p. fst p \<in> N) res"
    by (intro filter_store_frame) simp
  with Cons.IH [OF rest later] show ?case by simp
qed

lemma map_of_filter_names:
  "n \<in> N \<Longrightarrow> map_of (filter (\<lambda>p. fst p \<in> N) al) n = map_of al n"
  by (induction al) auto

lemma run_through_entry:
  assumes "Statistics_do env (pre @ (k, s) # post) x split w = (Inr res, w')"
    and "Statistics_do env pre x split w = (Inr res1, w1)"
    and "ezstat_call env s x w1 = (Inr r, w2)"
  shows "do_loop env x split post (store split k r res1) w2 = (Inr res, w')"
  using assms by (simp add: Statistics_do_def do_loop_append)

text \<open>
  The values that the loop computes do not depend on the flag: a call without splitting
  returns every name with its computed value, and the call with either flag stores these
  values one after the other.
\<close>

lemma do_loop_values:
  "distinct (map fst S) \<Longrightarrow> fst ` set res0 \<inter> fst ` set S = {} \<Longrightarrow>
   do_loop env x False S res0 w = (Inr vals, w') \<Longrightarrow>
   \<exists>vl. vals = res0 @ vl \<and> map fst vl = map fst S \<and>
     (\<forall>sp res. do_loop env x sp S res w = (Inr (fold (\<lambda>(k, r). store sp k r) vl res), w'))"
proof (induction S arbitrary: res0 w)
  case Nil
  then show ?case by simp
next
  case (Cons p S)
  obtain k0 s0 where p: "p = (k0, s0)" by (cases p)
  from Cons.prems(3) p obtain r w1 where
    r: "ezstat_call env s0 x w = (Inr r, w1)" and
    rest: "do_loop env x False S (store False k0 r res0) w1 = (Inr vals, w')"
    by (auto split: prod.splits sum.splits)
  from Cons.prems(2) p have fresh: "k0 \<notin> fst ` set res0" by auto
  then have st: "store False k0 r res0 = res0 @ [(k0, r)]"
    by (simp add: store_def update_fresh)
  from Cons.prems(1,2) p have d: "distinct (map fst S)"
    and disj: "fst ` set (res0 @ [(k0, r)]) \<inter> fst ` set S = {}"
    by (auto simp: image_iff)
  from rest st have rest': "do_loop env x False S (res0 @ [(k0, r)]) w1 = (Inr vals, w')"
    by simp
  from Cons.IH [OF d disj rest'] obtain vl where
    vl: "vals = res0 @ (k0, r) # vl" "map fst vl = map fst S"
      "\<forall>sp res. do_loop env x sp S res w1 = (Inr (fold (\<lambda>(k, r). store sp k r) vl res), w')"
    by auto
  have "vals = res0 @ ((k0, r) # vl) \<and> map fst ((k0, r) # vl) = map fst (p # S) \<and>
     (\<forall>sp res. do_loop env x sp (p # S) res w =
        (Inr (fold (\<lambda>(k, r). store sp k r) ((k0, r) # vl) res), w'))"
    using vl r p by simp
  then show ?case by blast
qed

lemma run_values:
  assumes S: "S = pre @ (k, s) # post" and dist: "distinct (map fst S)"
    and pre: "Statistics_do env pre x split w = (Inr res1, w1)"
    and val: "ezstat_call env s x w1 = (Inr r, w2)"
    and run: "Statistics_do env S x split w = (Inr res, w')"
    and plain: "Statistics_do env S x False w = (Inr (before @ e # after), w'')"
    and len: "length before = length pre"
  shows "e = (k, r) \<and> map fst before = map fst pre \<and> map fst after = map fst post \<and>
     res1 = fold (\<lambda>(k, r). store split k r) before [] \<and>
     res = fold (\<lambda>(k, r). store split k r) after (store split k r res1)"
proof -
  from plain S obtain vp wa where
    pf: "do_loop env x False pre [] w = (Inr vp, wa)" and
    rest: "do_loop env x False ((k, s) # post) vp wa = (Inr (before @ e # after), w'')"
    by (auto simp: Statistics_do_def do_loop_append split: prod.splits sum.splits)
  from dist S have dpre: "distinct (map fst pre)" and dpost: "distinct (map fst post)"
    and kpre: "k \<notin> fst ` set pre" and kpost: "k \<notin> fst ` set post"
    and disj: "fst ` set pre \<inter> fst ` set post = {}"
    by (auto simp: image_iff)
  from do_loop_values [OF dpre _ pf] obtain
    keys_vp: "map fst vp = map fst pre" and
    tr_pre: "\<forall>sp res. do_loop env x sp pre res w = (Inr (fold (\<lambda>(k, r). store sp k r) vp res), wa)"
    by auto
  from tr_pre pre have res1: "res1 = fold (\<lambda>(k, r). store split k r) vp []" and wa: "wa = w1"
    by (simp_all add: Statistics_do_def)
  from keys_vp have set_vp: "fst ` set vp = fst ` set pre"
    by (metis list.set_map)
  with kpre have "store False k r vp = vp @ [(k, r)]"
    by (simp add: store_def update_fresh)
  with rest val wa
  have post': "do_loop env x False post (vp @ [(k, r)]) w2 = (Inr (before @ e # after), w'')"
    by simp
  from set_vp kpost disj have "fst ` set (vp @ [(k, r)]) \<inter> fst ` set post = {}"
    by auto
  from do_loop_values [OF dpost this post'] obtain va where
    va: "before @ e # after = (vp @ [(k, r)]) @ va" and
    keys_va: "map fst va = map fst post" and
    tr_post: "\<forall>sp res. do_loop env x sp post res w2 = (Inr (fold (\<lambda>(k, r). store sp k r) va res), w'')"
    by blast
  from keys_vp have "length vp = length pre" by (metis length_map)
  with len va have eq: "before = vp" "e = (k, r)" "after = va"
    by simp_all
  from run S pre val have "do_loop env x split post (store split k r res1) w2 = (Inr res, w')"
    by (simp add: run_through_entry)
  with tr_post have "res = fold (\<lambda>(k, r). store split k r) va (store split k r res1)"
    by simp
  with eq keys_vp keys_va res1 show ?thesis by simp
qed

text \<open>
  Stores of values: entries under names that no store writes keep their values and their
  order; names that are all present keep their order whatever is stored; and splitting a
  tuple leaves its elements under the split names.
\<close>

lemma fold_update_names_frame:
  "\<forall>p \<in> set ps. split_name k (fst p) \<notin> N \<Longrightarrow>
   filter (\<lambda>p. fst p \<in> N) (fold (\<lambda>(i, ri). AList.update (split_name k i) ri) ps res) =
   filter (\<lambda>p. fst p \<in> N) res"
  by (induction ps arbitrary: res) (auto simp: filter_update_frame)

lemma filter_store_split_frame_bounded:
  "\<forall>j<length vs. split_name k j \<notin> N \<Longrightarrow>
   filter (\<lambda>p. fst p \<in> N) (store_split k vs res) = filter (\<lambda>p. fst p \<in> N) res"
  unfolding store_split_def
  by (rule fold_update_names_frame) (auto simp: in_set_enumerate_eq)

lemma fold_store_frame:
  "\<forall>p \<in> set vl. (if is_tuple (snd p)
       then \<forall>j<length (tuple_items (snd p)). split_name (fst p) j \<notin> N else fst p \<notin> N) \<Longrightarrow>
   filter (\<lambda>p. fst p \<in> N) (fold (\<lambda>(k, r). store True k r) vl res) = filter (\<lambda>p. fst p \<in> N) res"
proof (induction vl arbitrary: res)
  case Nil
  then show ?case by simp
next
  case (Cons p vl)
  obtain k r where p: "p = (k, r)" by (cases p)
  from Cons.prems p
  have "filter (\<lambda>p. fst p \<in> N) (store True k r res) = filter (\<lambda>p. fst p \<in> N) res"
    by (simp add: store_def filter_update_frame filter_store_split_frame_bounded split: if_splits)
  with Cons.IH [of "store True k r res"] Cons.prems p show ?case by simp
qed

lemma keys_update_frame:
  assumes "N \<subseteq> fst ` set al"
  shows "filter (\<lambda>n. n \<in> N) (map fst (AList.update k v al)) = filter (\<lambda>n. n \<in> N) (map fst al) \<and>
   N \<subseteq> fst ` set (AList.update k v al)"
proof
  from assms
  show "filter (\<lambda>n. n \<in> N) (map fst (AList.update k v al)) = filter (\<lambda>n. n \<in> N) (map fst al)"
    by (auto simp: update_keys)
  from assms show "N \<subseteq> fst ` set (AList.update k v al)"
    by (auto simp: dom_update)
qed

lemma keys_fold_update_frame:
  "N \<subseteq> fst ` set al \<Longrightarrow>
   filter (\<lambda>n. n \<in> N) (map fst (fold (\<lambda>(i, ri). AList.update (f i) ri) ps al)) =
     filter (\<lambda>n. n \<in> N) (map fst al) \<and>
   N \<subseteq> fst ` set (fold (\<lambda>(i, ri). AList.update (f i) ri) ps al)"
proof (induction ps arbitrary: al)
  case Nil
  then show ?case by simp
next
  case (Cons p ps)
  obtain i v where p: "p = (i, v)" by (cases p)
  from keys_update_frame [OF Cons.prems, of "f i" v] Cons.IH [of "AList.update (f i) v al"] p
  show ?case by simp
qed

lemma keys_store_frame:
  "N \<subseteq> fst ` set al \<Longrightarrow>
   filter (\<lambda>n. n \<in> N) (map fst (store sp k r al)) = filter (\<lambda>n. n \<in> N) (map fst al) \<and>
   N \<subseteq> fst ` set (store sp k r al)"
  using keys_update_frame [of N al k r] keys_fold_update_frame [of N al "split_name k"]
  by (simp add: store_def store_split_def)

lemma keys_fold_store_frame:
  "N \<subseteq> fst ` set al \<Longrightarrow>
   filter (\<lambda>n. n \<in> N) (map fst (fold (\<lambda>(k, r). store sp k r) vl al)) =
     filter (\<lambda>n. n \<in> N) (map fst al)"
proof (induction vl arbitrary: al)
  case Nil
  then show ?case by simp
next
  case (Cons p vl)
  obtain k r where p: "p = (k, r)" by (cases p)
  from keys_store_frame [OF Cons.prems, of sp k r] Cons.IH [of "store sp k r al"] p
  show ?case by simp
qed

lemma map_of_fold_update:
  "distinct (map fst ps) \<Longrightarrow>
   map_of (fold (\<lambda>(i, ri). AList.update (split_name k i) ri) ps res) (split_name k i) =
     (case map_of ps i of Some v \<Rightarrow> Some v | None \<Rightarrow> map_of res (split_name k i))"
proof (induction ps arbitrary: res)
  case Nil
  then show ?case by simp
next
  case (Cons p ps)
  obtain j v where p: "p = (j, v)" by (cases p)
  from Cons.prems p have d: "distinct (map fst ps)" and j: "j \<notin> fst ` set ps" by auto
  from j have none: "map_of ps j = None" by (simp add: map_of_eq_None_iff)
  from Cons.IH [OF d, of "AList.update (split_name k j) v res"] p none show ?case
    by (auto simp: update_conv' split_name_eq_iff split: option.splits)
qed

lemma map_of_store_split:
  "i < length vs \<Longrightarrow> map_of (store_split k vs res) (split_name k i) = Some (vs ! i)"
proof -
  assume i: "i < length vs"
  then have "map_of (enumerate 0 vs) i = Some (vs ! i)"
    by (simp add: in_set_enumerate_eq)
  with map_of_fold_update [of "enumerate 0 vs" k res i] show ?thesis
    by (simp add: store_split_def)
qed

lemma other_tuple_names:
  "k' \<noteq> k \<Longrightarrow> split_name k' j \<notin> split_name k ` A"
  by (auto simp: split_name_eq_iff)

text \<open>Without splitting, names that the loop does not visit keep their entries.\<close>

lemma do_loop_plain_other:
  "do_loop env x False S res w = (Inr res', w') \<Longrightarrow> k \<notin> fst ` set S \<Longrightarrow>
   map_of res' k = map_of res k"
proof -
  assume run: "do_loop env x False S res w = (Inr res', w')" and k: "k \<notin> fst ` set S"
  from k have "filter (\<lambda>p. fst p \<in> {k}) res' = filter (\<lambda>p. fst p \<in> {k}) res"
    by (intro do_loop_frame [OF run]) auto
  with map_of_filter_names [of k "{k}" res'] map_of_filter_names [of k "{k}" res]
  show ?thesis by simp
qed

lemma call_constant: "is_constant c \<Longrightarrow> ezstat_call env c x w = (Inr c, w)"
  by (cases c) simp_all

lemma do_loop_plain_constant:
  "do_loop env x False S res w = (Inr res', w') \<Longrightarrow> distinct (map fst S) \<Longrightarrow>
   (k, c) \<in> set S \<Longrightarrow> is_constant c \<Longrightarrow> map_of res' k = Some c"
proof (induction S arbitrary: res w)
  case Nil
  then show ?case by simp
next
  case (Cons p S)
  obtain k' s where p: "p = (k', s)" by (cases p)
  from Cons.prems(1) p obtain r w1 where
    r: "ezstat_call env s x w = (Inr r, w1)" and
    rest: "do_loop env x False S (store False k' r res) w1 = (Inr res', w')"
    by (auto split: prod.splits sum.splits)
  show ?case
  proof (cases "(k, c) \<in> set S")
    case True
    with Cons.IH [OF rest] Cons.prems show ?thesis by simp
  next
    case False
    with Cons.prems(3) p have eq: "k' = k" "s = c" by auto
    from Cons.prems(2) p eq have "k \<notin> fst ` set S" by (auto simp: image_iff)
    from do_loop_plain_other [OF rest this] r eq call_constant [OF Cons.prems(4), of env x w]
    show ?thesis by (simp add: store_def update_conv')
  qed
qed

text \<open>A set of constants, applied without splitting, returns itself.\<close>

lemma do_loop_constants:
  "\<forall>p \<in> set S. is_constant (snd p) \<Longrightarrow> distinct (map fst S) \<Longrightarrow>
   fst ` set res \<inter> fst ` set S = {} \<Longrightarrow>
   do_loop env x False S res w = (Inr (res @ S), w)"
proof (induction S arbitrary: res)
  case Nil
  then show ?case by simp
next
  case (Cons p S)
  obtain k c where p: "p = (k, c)" by (cases p)
  from Cons.prems p have c: "is_constant c" and fresh: "k \<notin> fst ` set res"
    and rest: "\<forall>p \<in> set S. is_constant (snd p)" "distinct (map fst S)"
      "fst ` set (res @ [(k, c)]) \<inter> fst ` set S = {}"
    by (auto simp: image_iff)
  from Cons.IH [OF rest] call_constant [OF c, of env x w] fresh p show ?case
    by (simp add: store_def update_fresh)
qed

text \<open>A failing call of the loop stops at an entry whose definition fails.\<close>

lemma do_loop_failure:
  "do_loop env x split S res w = (Inl e, w') \<Longrightarrow>
   \<exists>pre k s post res1 w1. S = pre @ (k, s) # post \<and>
     do_loop env x split pre res w = (Inr res1, w1) \<and> ezstat_call env s x w1 = (Inl e, w')"
proof (induction S arbitrary: res w)
  case Nil
  then show ?case by simp
next
  case (Cons p S)
  obtain k0 s0 where p: "p = (k0, s0)" by (cases p)
  obtain r0 w0 where c: "ezstat_call env s0 x w = (r0, w0)" by (cases "ezstat_call env s0 x w")
  show ?case
  proof (cases r0)
    case (Inl e0)
    with Cons.prems p c have "e0 = e" "w0 = w'" by simp_all
    with Inl c p have "p # S = [] @ (k0, s0) # S \<and>
        do_loop env x split [] res w = (Inr res, w) \<and> ezstat_call env s0 x w = (Inl e, w')"
      by simp
    then show ?thesis by blast
  next
    case (Inr r)
    with Cons.prems p c
    have "do_loop env x split S (store split k0 r res) w0 = (Inl e, w')" by simp
    from Cons.IH [OF this] obtain pre k s post res1 w1 where
      S: "S = pre @ (k, s) # post" and
      pre: "do_loop env x split pre (store split k0 r res) w0 = (Inr res1, w1)" and
      fail: "ezstat_call env s x w1 = (Inl e, w')"
      by blast
    from S p pre c Inr have "p # S = ((k0, s0) # pre) @ (k, s) # post \<and>
        do_loop env x split ((k0, s0) # pre) res w = (Inr res1, w1)"
      by simp
    with fail show ?thesis by blast
  qed
qed

text \<open>Pure calls make the dispatcher and the loop independent of the world.\<close>

lemma call_pure:
  assumes "\<forall>(c, args) \<in> set (invoked env s x). pure_call env c args"
  shows "ezstat_call env s x w = (fst (ezstat_call env s x w0), w)"
proof (cases s)
  case (VStr n)
  show ?thesis
  proof (cases "py_getattr env x n")
    case None
    with VStr show ?thesis by simp
  next
    case (Some f)
    show ?thesis
    proof (cases f)
      case (VFun c)
      with assms VStr Some have "pure_call env c []" by simp
      then have "py_call env c [] w = (fst (py_call env c [] w0), w)"
        unfolding pure_call_def by blast
      with VStr Some VFun show ?thesis by simp
    qed (use VStr Some in simp_all)
  qed
next
  case (VFun c)
  with assms have "pure_call env c [x]" by simp
  then have "py_call env c [x] w = (fst (py_call env c [x] w0), w)"
    unfolding pure_call_def by blast
  with VFun show ?thesis by simp
qed (simp_all split: option.splits)

lemma do_loop_pure:
  "pure_definitions env S x \<Longrightarrow>
   do_loop env x split S res w = (fst (do_loop env x split S res w0), w)"
proof (induction S arbitrary: res)
  case Nil
  then show ?case by simp
next
  case (Cons p S)
  obtain k s where p: "p = (k, s)" by (cases p)
  from Cons.prems p have here: "\<forall>(c, args) \<in> set (invoked env s x). pure_call env c args"
    and rest: "pure_definitions env S x"
    by (simp_all add: pure_definitions_def)
  from call_pure [OF here, of w w0] call_pure [OF here, of w0 w0]
  show ?case
    using Cons.IH [OF rest] p
    by (cases "fst (ezstat_call env s x w0)") (auto split: prod.splits)
qed

section \<open>The dispatcher\<close>

text \<open>
  C1. A definition that is text is an attribute name of the subject. Where the subject
  has no such attribute the dispatcher fails with AttributeMissing; where the attribute is
  callable the dispatcher returns what calling it with no arguments returns; otherwise
  it returns the attribute's value unchanged.
\<close>

theorem call_str_attribute:
  "(py_getattr env x s = None \<longrightarrow>
      ezstat_call env (VStr s) x w = (Inl (AttributeMissing s), w)) \<and>
   (\<forall>c. py_getattr env x s = Some (VFun c) \<longrightarrow>
      ezstat_call env (VStr s) x w = py_call env c [] w) \<and>
   (\<forall>a. py_getattr env x s = Some a \<longrightarrow> \<not> callable a \<longrightarrow>
      ezstat_call env (VStr s) x w = (Inr a, w))"
  by simp

theorem call_str_attribute_witness:
  "ezstat_call example_env (VStr ''nonexistent'') (VObj 0) 0 =
     (Inl (AttributeMissing ''nonexistent''), 0) \<and>
   ezstat_call example_env (VStr ''mean'') (VObj 0) 0 = (Inr (VFloat (Finite 1 (- 1))), 0) \<and>
   ezstat_call example_env (VStr ''shape'') (VObj 0) 0 = (Inr (VTuple [VInt 100, VInt 100]), 0)"
  using call_str_attribute [of example_env "VObj 0" "''nonexistent''" 0]
    call_str_attribute [of example_env "VObj 0" "''mean''" 0]
    call_str_attribute [of example_env "VObj 0" "''shape''" 0]
  by (simp add: example_env_def)

text \<open>
  C2. A definition that is callable is called with the subject as its only argument, and
  the dispatcher returns what the call returns. So the set \<^verbatim>\<open>{k: f}\<close> applied to \<open>x\<close>
  yields the mapping whose only entry is \<open>f(x)\<close> under \<open>k\<close>, and fails as \<open>f(x)\<close> fails.
\<close>

theorem call_callable:
  "ezstat_call env (VFun f) x w = py_call env f [x] w \<and>
   Statistics_do env [(k, VFun f)] x False w =
     (case py_call env f [x] w of
        (Inl e, w') \<Rightarrow> (Inl e, w')
      | (Inr v, w') \<Rightarrow> (Inr [(k, v)], w'))"
  by (simp add: Statistics_do_def store_def split: prod.splits sum.splits)

text \<open>
  C8. A definition that is a number or a tuple is returned unchanged, whatever the
  subject. So the set \<^verbatim>\<open>{k: c}\<close> yields the mapping whose only entry is \<open>c\<close> under \<open>k\<close>; a
  set of constants that holds \<open>c\<close> under \<open>k\<close> yields itself; and in every set that holds
  \<open>c\<close> under \<open>k\<close>, a call of \<^verbatim>\<open>apply(x)\<close> that returns a mapping returns one with \<open>c\<close>
  under \<open>k\<close>.
\<close>

theorem constant_definition:
  assumes "is_constant c"
  shows "ezstat_call env c x w = (Inr c, w) \<and>
     Statistics_do env [(k, c)] x False w = (Inr [(k, c)], w) \<and>
     (\<forall>S. distinct (map fst S) \<longrightarrow> (k, c) \<in> set S \<longrightarrow> (\<forall>p \<in> set S. is_constant (snd p)) \<longrightarrow>
        Statistics_do env S x False w = (Inr S, w) \<and> map_of S k = Some c) \<and>
     (\<forall>S res w'. distinct (map fst S) \<longrightarrow> (k, c) \<in> set S \<longrightarrow>
        Statistics_do env S x False w = (Inr res, w') \<longrightarrow> map_of res k = Some c)"
proof (intro conjI allI impI)
  show "ezstat_call env c x w = (Inr c, w)" using assms by (rule call_constant)
  then show "Statistics_do env [(k, c)] x False w = (Inr [(k, c)], w)"
    by (simp add: Statistics_do_def store_def)
next
  fix S :: statistics
  assume S: "distinct (map fst S)" "(k, c) \<in> set S" "\<forall>p \<in> set S. is_constant (snd p)"
  from do_loop_constants [OF S(3) S(1), of "[]" env x w]
  show "Statistics_do env S x False w = (Inr S, w)" by (simp add: Statistics_do_def)
  from S show "map_of S k = Some c" by simp
next
  fix S :: statistics and res w'
  assume "distinct (map fst S)" "(k, c) \<in> set S" "Statistics_do env S x False w = (Inr res, w')"
  with assms show "map_of res k = Some c"
    using do_loop_plain_constant [of env x S "[]" w res w' k c] by (simp add: Statistics_do_def)
qed

theorem constant_definition_witness:
  "ezstat_call example_env (VInt 3) (VObj 0) 0 = (Inr (VInt 3), 0) \<and>
   Statistics_do example_env [(''k'', VInt 3)] (VObj 0) False 0 = (Inr [(''k'', VInt 3)], 0) \<and>
   Statistics_do example_env [(''j'', VTuple [VInt 1, VInt 2]), (''k'', VInt 3)] (VObj 0) False 0 =
     (Inr [(''j'', VTuple [VInt 1, VInt 2]), (''k'', VInt 3)], 0) \<and>
   Statistics_do example_env [(''mean'', VStr ''mean''), (''k'', VInt 3)] (VObj 0) False 0 =
     (Inr [(''mean'', VFloat (Finite 1 (- 1))), (''k'', VInt 3)], 0) \<and>
   map_of [(''mean'', VFloat (Finite 1 (- 1))), (''k'', VInt 3)] ''k'' = Some (VInt 3)"
proof -
  have c: "is_constant (VInt 3)" by simp
  have run: "Statistics_do example_env [(''mean'', VStr ''mean''), (''k'', VInt 3)] (VObj 0) False 0 =
      (Inr [(''mean'', VFloat (Finite 1 (- 1))), (''k'', VInt 3)], 0)"
    by (simp add: Statistics_do_def store_def example_env_def)
  from constant_definition [OF c, of example_env "VObj 0" 0 "''k''"] run show ?thesis
    by simp
qed

text \<open>
  C7 (the source departs from the claim). The claim: a definition that is neither text,
  nor callable, nor a number or a tuple makes the dispatcher fail with
  UnsupportedDefinitionType. The source builds the message of that \<^verbatim>\<open>TypeError\<close> from
  \<^verbatim>\<open>k\<close>, a name that \<^verbatim>\<open>_call\<close> does not bind and the module does not define: with the
  definition \<^verbatim>\<open>None\<close>, the dispatcher, and \<^verbatim>\<open>apply\<close> on the set \<^verbatim>\<open>{'a': None}\<close>, fail with
  \<^verbatim>\<open>NameError: name 'k' is not defined\<close>.
\<close>

theorem unsupported_definition_NameError:
  "ezstat_call example_env VNone (VObj 0) 0 = (Inl (NameError ''k''), 0) \<and>
   Statistics_do example_env [(''a'', VNone)] (VObj 0) False 0 = (Inl (NameError ''k''), 0)"
  by (simp add: example_env_def module_namespace_def Statistics_do_def)

text \<open>
  The same for every such definition while the module binds no \<^verbatim>\<open>k\<close>; and were a
  global \<^verbatim>\<open>k\<close> bound, the \<^verbatim>\<open>TypeError\<close> would name that global's value.
\<close>

lemma unsupported_definition_unbound_k:
  "\<not> is_text s \<Longrightarrow> \<not> callable s \<Longrightarrow> \<not> is_constant s \<Longrightarrow> py_globals env ''k'' = None \<Longrightarrow>
   ezstat_call env s x w = (Inl (NameError ''k''), w)"
  by (cases s) simp_all

lemma unsupported_definition_bound_k:
  "\<not> is_text s \<Longrightarrow> \<not> callable s \<Longrightarrow> \<not> is_constant s \<Longrightarrow> py_globals env ''k'' = Some v \<Longrightarrow>
   ezstat_call env s x w = (Inl (UnsupportedDefinitionType (py_format env v)), w)"
  by (cases s) simp_all

section \<open>\<^verbatim>\<open>Statistics.do\<close>\<close>

text \<open>
  C3 (amended). Take an entry \<open>(k, s)\<close> of a set, whose value computed during a call of
  \<^verbatim>\<open>apply\<close> that returns a mapping is a tuple \<open>vs\<close>: \<open>pre\<close> are the entries before it and
  \<open>w1\<close> is the world in which the entry is reached. The call without splitting returns
  every name with its computed value: \<open>before\<close> holds the values of the earlier entries
  and \<open>after\<close> those of the later ones. With \<^verbatim>\<open>split\<close> true:
  \<^item> if no earlier entry whose value is not a tuple is named \<^verbatim>\<open>"{k}-{i}"\<close> for an index
    \<open>i\<close> of the tuple, the names \<^verbatim>\<open>"{k}-{i}"\<close> occur in the mapping once each, for the
    0-based indices \<open>i\<close> of the tuple, in the order of the tuple;
  \<^item> if no later entry whose value is not a tuple is named \<^verbatim>\<open>"{k}-{i}"\<close> for an index
    \<open>i\<close> of the tuple, the mapping holds the \<open>i\<close>-th element under \<^verbatim>\<open>"{k}-{i}"\<close>;
  \<^item> if \<open>k\<close> is not \<^verbatim>\<open>"{other}-{j}"\<close> for another entry \<^verbatim>\<open>other\<close> whose value is a tuple
    and an index \<open>j\<close> of that tuple, the mapping has no entry under \<open>k\<close>.

  With \<^verbatim>\<open>split\<close> false the mapping has exactly one entry under \<open>k\<close>, the tuple unchanged.
\<close>

theorem split_tuple_entries:
  assumes S: "S = pre @ (k, s) # post" and dist: "distinct (map fst S)"
    and pre: "Statistics_do env pre x split w = (Inr res1, w1)"
    and val: "ezstat_call env s x w1 = (Inr (VTuple vs), w2)"
    and run: "Statistics_do env S x split w = (Inr res, w')"
    and plain: "Statistics_do env S x False w = (Inr (before @ e # after), w'')"
    and len: "length before = length pre"
  shows "(split \<and> (\<forall>p \<in> set before. \<not> is_tuple (snd p) \<longrightarrow> fst p \<notin> split_name k ` {..<length vs}) \<longrightarrow>
          map fst (filter (\<lambda>p. fst p \<in> split_name k ` {..<length vs}) res) =
            map (split_name k) [0..<length vs]) \<and>
         (split \<and> (\<forall>p \<in> set after. \<not> is_tuple (snd p) \<longrightarrow> fst p \<notin> split_name k ` {..<length vs}) \<longrightarrow>
          (\<forall>i<length vs. map_of res (split_name k i) = Some (vs ! i))) \<and>
         (split \<and> (\<forall>p \<in> set (before @ after). is_tuple (snd p) \<longrightarrow>
             k \<notin> split_name (fst p) ` {..<length (tuple_items (snd p))}) \<longrightarrow>
          map_of res k = None) \<and>
         (\<not> split \<longrightarrow>
          filter (\<lambda>p. fst p = k) res = [(k, VTuple vs)] \<and> map_of res k = Some (VTuple vs))"
proof -
  let ?N = "split_name k ` {..<length vs}"
  let ?new = "map (\<lambda>(i, ri). (split_name k i, ri)) (enumerate 0 vs)"
  let ?st = "\<lambda>(k, r). store True k r"
  from run_values [OF S dist pre val run plain len]
  have kb: "map fst before = map fst pre" and ka: "map fst after = map fst post"
    and r1: "res1 = fold (\<lambda>(k, r). store split k r) before []"
    and r: "res = fold (\<lambda>(k, r). store split k r) after (store split k (VTuple vs) res1)"
    by simp_all
  from dist S have "k \<notin> fst ` set pre" "k \<notin> fst ` set post" by (auto simp: image_iff)
  moreover from kb ka have "fst ` set before = fst ` set pre" "fst ` set after = fst ` set post"
    by (metis list.set_map)+
  ultimately have others: "fst p \<noteq> k" if "p \<in> set before \<union> set after" for p
    using that by auto
  have order: "map fst (filter (\<lambda>p. fst p \<in> ?N) res) = map (split_name k) [0..<length vs]"
    if sp: split and c: "\<forall>p \<in> set before. \<not> is_tuple (snd p) \<longrightarrow> fst p \<notin> ?N"
  proof -
    have "\<forall>p \<in> set before. (if is_tuple (snd p)
        then \<forall>j<length (tuple_items (snd p)). split_name (fst p) j \<notin> ?N else fst p \<notin> ?N)"
      using c others by (simp add: other_tuple_names)
    from fold_store_frame [OF this, of "[]"] r1 sp
    have "filter (\<lambda>p. fst p \<in> ?N) res1 = []" by simp
    then have "\<forall>i<length vs. split_name k i \<notin> fst ` set res1"
      by (force simp: filter_empty_conv)
    then have st: "store True k (VTuple vs) res1 = res1 @ ?new"
      by (simp add: store_def store_split_fresh)
    have "map fst (map (\<lambda>(i, ri). (split_name k i, ri)) ps) = map (split_name k) (map fst ps)"
      for ps :: "(nat \<times> pyval) list"
      by (induction ps) auto
    then have "map fst ?new = map (split_name k) (map fst (enumerate 0 vs))" .
    then have keys_new: "map fst ?new = map (split_name k) [0..<length vs]"
      unfolding map_fst_enumerate by simp
    have "set (map fst ?new) = ?N"
      unfolding keys_new by (simp add: atLeast0LessThan)
    then have sn: "fst ` set ?new = ?N"
      by (simp only: set_map)
    have sub: "?N \<subseteq> fst ` set (res1 @ ?new)"
      unfolding set_append image_Un sn by blast
    have "filter (\<lambda>n. n \<in> ?N) (map fst (res1 @ ?new)) = map (split_name k) [0..<length vs]"
      using \<open>filter (\<lambda>p. fst p \<in> ?N) res1 = []\<close> keys_new
      by (simp add: filter_map comp_def)
    with keys_fold_store_frame [OF sub, of True after] r sp st show ?thesis
      by (simp add: filter_map comp_def)
  qed
  have vals: "map_of res (split_name k i) = Some (vs ! i)"
    if sp: split and c: "\<forall>p \<in> set after. \<not> is_tuple (snd p) \<longrightarrow> fst p \<notin> ?N"
      and i: "i < length vs" for i
  proof -
    have "\<forall>p \<in> set after. (if is_tuple (snd p)
        then \<forall>j<length (tuple_items (snd p)). split_name (fst p) j \<notin> ?N else fst p \<notin> ?N)"
      using c others by (simp add: other_tuple_names)
    from fold_store_frame [OF this, of "store True k (VTuple vs) res1"] r sp
    have "filter (\<lambda>p. fst p \<in> ?N) res = filter (\<lambda>p. fst p \<in> ?N) (store_split k vs res1)"
      by (simp add: store_def)
    moreover from i have "split_name k i \<in> ?N" by simp
    ultimately have "map_of res (split_name k i) = map_of (store_split k vs res1) (split_name k i)"
      by (metis map_of_filter_names)
    with i show ?thesis by (simp add: map_of_store_split)
  qed
  have noplain: "map_of res k = None"
    if sp: split and c: "\<forall>p \<in> set (before @ after). is_tuple (snd p) \<longrightarrow>
        k \<notin> split_name (fst p) ` {..<length (tuple_items (snd p))}"
  proof -
    have cond: "\<forall>p \<in> set vl. (if is_tuple (snd p)
        then \<forall>j<length (tuple_items (snd p)). split_name (fst p) j \<notin> {k} else fst p \<notin> {k})"
      if sub: "set vl \<subseteq> set before \<union> set after" for vl
    proof
      fix p assume "p \<in> set vl"
      with sub have p: "p \<in> set before \<union> set after" by blast
      show "if is_tuple (snd p)
        then \<forall>j<length (tuple_items (snd p)). split_name (fst p) j \<notin> {k} else fst p \<notin> {k}"
      proof (cases "is_tuple (snd p)")
        case True
        with c p have "k \<notin> split_name (fst p) ` {..<length (tuple_items (snd p))}" by simp
        with True show ?thesis by auto
      next
        case False
        with others [OF p] show ?thesis by simp
      qed
    qed
    from fold_store_frame [OF cond, of before "[]"] r1 sp
    have "filter (\<lambda>p. fst p \<in> {k}) res1 = []" by simp
    moreover have "filter (\<lambda>p. fst p \<in> {k}) (store True k (VTuple vs) res1) =
        filter (\<lambda>p. fst p \<in> {k}) res1"
      using filter_store_split_frame_bounded [of vs k "{k}" res1]
      by (simp add: store_def split_name_neq)
    moreover from fold_store_frame [OF cond, of after "store True k (VTuple vs) res1"] r sp
    have "filter (\<lambda>p. fst p \<in> {k}) res = filter (\<lambda>p. fst p \<in> {k}) (store True k (VTuple vs) res1)"
      by simp
    ultimately have "filter (\<lambda>p. fst p \<in> {k}) res = []" by simp
    then have "k \<notin> fst ` set res" by (force simp: filter_empty_conv)
    then show ?thesis by (simp add: map_of_eq_None_iff)
  qed
  have single: "filter (\<lambda>p. fst p \<in> {k}) res = [(k, VTuple vs)]" if ns: "\<not> split"
  proof -
    from pre have pre': "do_loop env x split pre [] w = (Inr res1, w1)"
      by (simp add: Statistics_do_def)
    from run S pre val
    have post: "do_loop env x split post (store split k (VTuple vs) res1) w2 = (Inr res, w')"
      by (simp add: run_through_entry)
    from dist S have o: "k' \<noteq> k" if "k' \<in> fst ` set pre \<union> fst ` set post" for k'
      using that by auto
    from ns o have e: "filter (\<lambda>p. fst p \<in> {k}) res1 = filter (\<lambda>p. fst p \<in> {k}) []"
      by (intro do_loop_frame [OF pre']) auto
    then have "k \<notin> fst ` set res1" by (force simp: filter_empty_conv)
    with ns e have "filter (\<lambda>p. fst p \<in> {k}) (store split k (VTuple vs) res1) = [(k, VTuple vs)]"
      by (simp add: store_def update_fresh)
    moreover from ns o
    have "filter (\<lambda>p. fst p \<in> {k}) res = filter (\<lambda>p. fst p \<in> {k}) (store split k (VTuple vs) res1)"
      by (intro do_loop_frame [OF post]) auto
    ultimately show ?thesis by simp
  qed
  show ?thesis
  proof (intro conjI impI allI)
    assume "split \<and> (\<forall>p \<in> set before. \<not> is_tuple (snd p) \<longrightarrow> fst p \<notin> ?N)"
    then show "map fst (filter (\<lambda>p. fst p \<in> ?N) res) = map (split_name k) [0..<length vs]"
      using order by blast
  next
    fix i
    assume "split \<and> (\<forall>p \<in> set after. \<not> is_tuple (snd p) \<longrightarrow> fst p \<notin> ?N)" "i < length vs"
    then show "map_of res (split_name k i) = Some (vs ! i)"
      using vals by blast
  next
    assume "split \<and> (\<forall>p \<in> set (before @ after). is_tuple (snd p) \<longrightarrow>
        k \<notin> split_name (fst p) ` {..<length (tuple_items (snd p))})"
    then show "map_of res k = None" using noplain by blast
  next
    assume ns: "\<not> split"
    from single [OF ns] show "filter (\<lambda>p. fst p = k) res = [(k, VTuple vs)]" by simp
    from map_of_filter_names [of k "{k}" res] single [OF ns]
    show "map_of res k = Some (VTuple vs)" by simp
  qed
qed

theorem split_tuple_entries_witness:
  "Statistics_do example_env [(''mean'', VFun 2), (''shape'', VStr ''shape'')] (VObj 0) True 0 =
     (Inr [(''mean'', VInt 1), (''shape-0'', VInt 100), (''shape-1'', VInt 100)], 0) \<and>
   map fst (filter (\<lambda>p. fst p \<in> split_name ''shape'' ` {..<length [VInt 100, VInt 100]})
     [(''mean'', VInt 1), (''shape-0'', VInt 100), (''shape-1'', VInt 100)]) =
     map (split_name ''shape'') [0..<length [VInt 100, VInt 100]] \<and>
   map (split_name ''shape'') [0..<length [VInt 100, VInt 100]] = [''shape-0'', ''shape-1''] \<and>
   map_of [(''mean'', VInt 1), (''shape-0'', VInt 100), (''shape-1'', VInt 100)] ''shape-0'' =
     Some (VInt 100) \<and>
   map_of [(''mean'', VInt 1), (''shape-0'', VInt 100), (''shape-1'', VInt 100)] ''shape-1'' =
     Some (VInt 100) \<and>
   map_of [(''mean'', VInt 1), (''shape-0'', VInt 100), (''shape-1'', VInt 100)] ''shape'' = None \<and>
   Statistics_do example_env [(''mean'', VFun 2), (''shape'', VStr ''shape'')] (VObj 0) False 0 =
     (Inr [(''mean'', VInt 1), (''shape'', VTuple [VInt 100, VInt 100])], 0) \<and>
   map_of [(''mean'', VInt 1), (''shape'', VTuple [VInt 100, VInt 100])] ''shape'' =
     Some (VTuple [VInt 100, VInt 100]) \<and>
   Statistics_do example_env [(''b-0'', VStr ''shape''), (''b'', VTuple [VInt 7, VInt 8])]
     (VObj 0) True 0 =
     (Inr [(''b-0-0'', VInt 100), (''b-0-1'', VInt 100), (''b-0'', VInt 7), (''b-1'', VInt 8)], 0) \<and>
   map fst (filter (\<lambda>p. fst p \<in> split_name ''b-0'' ` {..<length [VInt 100, VInt 100]})
     [(''b-0-0'', VInt 100), (''b-0-1'', VInt 100), (''b-0'', VInt 7), (''b-1'', VInt 8)]) =
     map (split_name ''b-0'') [0..<length [VInt 100, VInt 100]] \<and>
   map (split_name ''b-0'') [0..<length [VInt 100, VInt 100]] = [''b-0-0'', ''b-0-1''] \<and>
   map_of [(''b-0-0'', VInt 100), (''b-0-1'', VInt 100), (''b-0'', VInt 7), (''b-1'', VInt 8)]
     ''b-0-0'' = Some (VInt 100) \<and>
   map_of [(''b-0-0'', VInt 100), (''b-0-1'', VInt 100), (''b-0'', VInt 7), (''b-1'', VInt 8)]
     ''b-0-1'' = Some (VInt 100)"
proof -
  let ?S = "[(''mean'', VFun 2), (''shape'', VStr ''shape'')]"
  let ?R = "[(''mean'', VInt 1), (''shape-0'', VInt 100), (''shape-1'', VInt 100)]"
  let ?P = "[(''mean'', VInt 1), (''shape'', VTuple [VInt 100, VInt 100])]"
  let ?vs = "[VInt 100, VInt 100]"
  have S: "?S = [(''mean'', VFun 2)] @ (''shape'', VStr ''shape'') # []" by simp
  have dist: "distinct (map fst ?S)" by simp
  have pre: "Statistics_do example_env [(''mean'', VFun 2)] (VObj 0) split 0 =
      (Inr [(''mean'', VInt 1)], 0)" for split
    by (simp add: Statistics_do_def store_def example_env_def)
  have val: "ezstat_call example_env (VStr ''shape'') (VObj 0) 0 = (Inr (VTuple ?vs), 0)"
    by (simp add: example_env_def)
  have run: "Statistics_do example_env ?S (VObj 0) True 0 = (Inr ?R, 0)"
    by (simp add: Statistics_do_def store_def store_split_def split_name_def str_nat.simps
        digit_def example_env_def)
  have plain: "Statistics_do example_env ?S (VObj 0) False 0 =
      (Inr ([(''mean'', VInt 1)] @ (''shape'', VTuple ?vs) # []), 0)"
    by (simp add: Statistics_do_def store_def example_env_def)
  then have plain': "Statistics_do example_env ?S (VObj 0) False 0 = (Inr ?P, 0)"
    by simp
  have len: "length [(''mean'', VInt 1)] = length [(''mean'', VFun 2)]" by simp
  have c1: "\<forall>p \<in> set [(''mean'', VInt 1)]. \<not> is_tuple (snd p) \<longrightarrow>
      fst p \<notin> split_name ''shape'' ` {..<length ?vs}"
    by (auto simp: split_name_def)
  have c2: "\<forall>p \<in> set ([] :: (string \<times> pyval) list). \<not> is_tuple (snd p) \<longrightarrow>
      fst p \<notin> split_name ''shape'' ` {..<length ?vs}"
    by simp
  have c3: "\<forall>p \<in> set ([(''mean'', VInt 1)] @ []). is_tuple (snd p) \<longrightarrow>
      ''shape'' \<notin> split_name (fst p) ` {..<length (tuple_items (snd p))}"
    by simp
  note T = split_tuple_entries [OF S dist pre val run plain len]
  from T c1 have order: "map fst (filter (\<lambda>p. fst p \<in> split_name ''shape'' ` {..<length ?vs}) ?R) =
      map (split_name ''shape'') [0..<length ?vs]"
    by blast
  have names: "map (split_name ''shape'') [0..<length ?vs] = [''shape-0'', ''shape-1'']"
    by (simp add: split_name_def str_nat.simps digit_def upt_rec)
  from T c2 have "\<forall>i<length ?vs. map_of ?R (split_name ''shape'' i) = Some (?vs ! i)"
    by blast
  then have "map_of ?R (split_name ''shape'' 0) = Some (?vs ! 0)"
    "map_of ?R (split_name ''shape'' 1) = Some (?vs ! 1)"
    by simp_all
  then have v0: "map_of ?R ''shape-0'' = Some (VInt 100)"
    and v1: "map_of ?R ''shape-1'' = Some (VInt 100)"
    by (simp_all add: split_name_def str_nat.simps digit_def)
  from T c3 have none: "map_of ?R ''shape'' = None"
    by blast
  from split_tuple_entries [OF S dist pre val plain' plain len]
  have whole: "map_of ?P ''shape'' = Some (VTuple ?vs)"
    by blast
  let ?S' = "[(''b-0'', VStr ''shape''), (''b'', VTuple [VInt 7, VInt 8])]"
  let ?R' = "[(''b-0-0'', VInt 100), (''b-0-1'', VInt 100), (''b-0'', VInt 7), (''b-1'', VInt 8)]"
  have S': "?S' = [] @ (''b-0'', VStr ''shape'') # [(''b'', VTuple [VInt 7, VInt 8])]" by simp
  have dist': "distinct (map fst ?S')" by simp
  have pre0: "Statistics_do example_env [] (VObj 0) True 0 = (Inr [], 0)"
    by (simp add: Statistics_do_def)
  have run': "Statistics_do example_env ?S' (VObj 0) True 0 = (Inr ?R', 0)"
    by (simp add: Statistics_do_def store_def store_split_def split_name_def str_nat.simps
        digit_def example_env_def)
  have unsplit: "Statistics_do example_env ?S' (VObj 0) False 0 =
      (Inr ([] @ (''b-0'', VTuple ?vs) # [(''b'', VTuple [VInt 7, VInt 8])]), 0)"
    by (simp add: Statistics_do_def store_def example_env_def)
  have len': "length ([] :: (string \<times> pyval) list) = length ([] :: statistics)" by simp
  have d1: "\<forall>p \<in> set ([] :: (string \<times> pyval) list). \<not> is_tuple (snd p) \<longrightarrow>
      fst p \<notin> split_name ''b-0'' ` {..<length ?vs}"
    by simp
  have d2: "\<forall>p \<in> set [(''b'', VTuple [VInt 7, VInt 8])]. \<not> is_tuple (snd p) \<longrightarrow>
      fst p \<notin> split_name ''b-0'' ` {..<length ?vs}"
    by simp
  note T' = split_tuple_entries [OF S' dist' pre0 val run' unsplit len']
  from T' d1 have order': "map fst (filter (\<lambda>p. fst p \<in> split_name ''b-0'' ` {..<length ?vs}) ?R') =
      map (split_name ''b-0'') [0..<length ?vs]"
    by blast
  have names': "map (split_name ''b-0'') [0..<length ?vs] = [''b-0-0'', ''b-0-1'']"
    by (simp add: split_name_def str_nat.simps digit_def upt_rec)
  from T' d2 have "\<forall>i<length ?vs. map_of ?R' (split_name ''b-0'' i) = Some (?vs ! i)"
    by blast
  then have "map_of ?R' (split_name ''b-0'' 0) = Some (?vs ! 0)"
    "map_of ?R' (split_name ''b-0'' 1) = Some (?vs ! 1)"
    by simp_all
  then have v0': "map_of ?R' ''b-0-0'' = Some (VInt 100)"
    and v1': "map_of ?R' ''b-0-1'' = Some (VInt 100)"
    by (simp_all add: split_name_def str_nat.simps digit_def)
  show ?thesis
    by (intro conjI run order names v0 v1 none plain' whole run' order' names' v0' v1')
qed

text \<open>
  The claim as it stands, for every entry and every set, fails where an entry is stored
  under a name that another entry claims: in \<^verbatim>\<open>{'b-0': 'shape', 'b': (7, 8)}\<close> the entry
  \<^verbatim>\<open>b-0\<close> has the tuple \<^verbatim>\<open>(100, 100)\<close>, and the mapping returned with \<^verbatim>\<open>split\<close> true has
  an entry under the plain name \<^verbatim>\<open>b-0\<close> (while, as shown above, it has the elements of
  that tuple under \<^verbatim>\<open>b-0-0\<close> and \<^verbatim>\<open>b-0-1\<close>); in \<^verbatim>\<open>{'a': 'shape', 'a-0': 5}\<close> the entry
  \<^verbatim>\<open>a\<close> has the tuple \<^verbatim>\<open>(100, 100)\<close>, and the mapping holds \<^verbatim>\<open>5\<close> under \<^verbatim>\<open>a-0\<close>.
\<close>

theorem split_name_collision_counterexample:
  "ezstat_call example_env (VStr ''shape'') (VObj 0) 0 = (Inr (VTuple [VInt 100, VInt 100]), 0) \<and>
   Statistics_do example_env [(''b-0'', VStr ''shape''), (''b'', VTuple [VInt 7, VInt 8])]
     (VObj 0) True 0 =
     (Inr [(''b-0-0'', VInt 100), (''b-0-1'', VInt 100), (''b-0'', VInt 7), (''b-1'', VInt 8)], 0) \<and>
   map_of [(''b-0-0'', VInt 100), (''b-0-1'', VInt 100), (''b-0'', VInt 7), (''b-1'', VInt 8)]
     ''b-0'' \<noteq> None \<and>
   Statistics_do example_env [(''a'', VStr ''shape''), (''a-0'', VInt 5)] (VObj 0) True 0 =
     (Inr [(''a-0'', VInt 5), (''a-1'', VInt 100)], 0) \<and>
   map_of [(''a-0'', VInt 5), (''a-1'', VInt 100)] ''a-0'' \<noteq> Some (VInt 100)"
  by (simp add: Statistics_do_def store_def store_split_def split_name_def str_nat.simps
      digit_def example_env_def)

text \<open>
  C6. A call of \<^verbatim>\<open>apply\<close> fails exactly when the definition of some entry fails after
  the entries before it have all been evaluated: the failure of the call is that of the
  dispatcher, unchanged, the world is the one that failing evaluation left, so no later
  definition is evaluated, and no mapping is returned. The dispatcher in turn hands on
  what a callable definition returns or raises.
\<close>

theorem first_failure_propagates:
  "(Statistics_do env S x split w = (Inl e, w') \<longleftrightarrow>
    (\<exists>pre k s post res1 w1. S = pre @ (k, s) # post \<and>
       Statistics_do env pre x split w = (Inr res1, w1) \<and> ezstat_call env s x w1 = (Inl e, w'))) \<and>
   ezstat_call env (VFun c) x w = py_call env c [x] w"
proof (intro conjI iffI)
  assume "Statistics_do env S x split w = (Inl e, w')"
  then show "\<exists>pre k s post res1 w1. S = pre @ (k, s) # post \<and>
      Statistics_do env pre x split w = (Inr res1, w1) \<and> ezstat_call env s x w1 = (Inl e, w')"
    unfolding Statistics_do_def by (rule do_loop_failure)
next
  assume "\<exists>pre k s post res1 w1. S = pre @ (k, s) # post \<and>
      Statistics_do env pre x split w = (Inr res1, w1) \<and> ezstat_call env s x w1 = (Inl e, w')"
  then show "Statistics_do env S x split w = (Inl e, w')"
    by (auto simp: Statistics_do_def do_loop_append)
next
  show "ezstat_call env (VFun c) x w = py_call env c [x] w" by simp
qed

theorem first_failure_propagates_witness:
  "Statistics_do example_env [(''mean'', VStr ''mean''), (''bad'', VFun 3), (''count'', VFun 4)]
     (VObj 0) False 0 = (Inl (Raised ''ZeroDivisionError''), 0)"
proof -
  have "Statistics_do example_env [(''mean'', VStr ''mean'')] (VObj 0) False 0 =
      (Inr [(''mean'', VFloat (Finite 1 (- 1)))], 0)"
    by (simp add: Statistics_do_def store_def example_env_def)
  moreover have "ezstat_call example_env (VFun 3) (VObj 0) 0 = (Inl (Raised ''ZeroDivisionError''), 0)"
    by (simp add: example_env_def)
  ultimately show ?thesis
    using first_failure_propagates [of example_env
        "[(''mean'', VStr ''mean''), (''bad'', VFun 3), (''count'', VFun 4)]" "VObj 0" False 0
        "Raised ''ZeroDivisionError''" 0 undefined]
    by (metis append_Cons append_Nil)
qed

text \<open>
  C9. On a subject for which the definitions of a set are pure, \<^verbatim>\<open>apply\<close> leaves the
  world as it found it and returns the same in every world: two calls with the same
  subject, the same definitions and the same flag return equal results.
\<close>

theorem apply_deterministic:
  assumes "pure_definitions env S x"
  shows "snd (Statistics_do env S x split w) = w \<and>
         fst (Statistics_do env S x split w) = fst (Statistics_do env S x split w0)"
  using do_loop_pure [OF assms, of split "[]" w w0] by (simp add: Statistics_do_def)

theorem apply_deterministic_witness:
  "pure_definitions example_env
     [(''mean'', VStr ''mean''), (''n'', VFun 2), (''shape'', VStr ''shape'')] (VObj 0) \<and>
   snd (Statistics_do example_env
     [(''mean'', VStr ''mean''), (''n'', VFun 2), (''shape'', VStr ''shape'')] (VObj 0) True 5) = 5 \<and>
   fst (Statistics_do example_env
     [(''mean'', VStr ''mean''), (''n'', VFun 2), (''shape'', VStr ''shape'')] (VObj 0) True 5) =
   fst (Statistics_do example_env
     [(''mean'', VStr ''mean''), (''n'', VFun 2), (''shape'', VStr ''shape'')] (VObj 0) True 9)"
proof -
  have p: "pure_definitions example_env
     [(''mean'', VStr ''mean''), (''n'', VFun 2), (''shape'', VStr ''shape'')] (VObj 0)"
    by (simp add: pure_definitions_def pure_call_def example_env_def)
  from apply_deterministic [OF p, of True 5 9] p show ?thesis by simp
qed

text \<open>A definition that is not pure may return something else the second time.\<close>

lemma impure_definition_differs:
  "Statistics_do example_env [(''count'', VFun 4)] (VObj 0) False 0 = (Inr [(''count'', VInt 0)], 1) \<and>
   Statistics_do example_env [(''count'', VFun 4)] (VObj 0) False 1 = (Inr [(''count'', VInt 1)], 2)"
  by (simp add: Statistics_do_def store_def example_env_def)

section \<open>\<^verbatim>\<open>MappingStatistics.do\<close>\<close>

text \<open>
  C5. With no key set (the key is \<^verbatim>\<open>None\<close>) \<^verbatim>\<open>MappingStatistics.do\<close> is
  \<^verbatim>\<open>Statistics.do\<close> on the same entries, the same subject and the same flag.
\<close>

theorem no_key_is_plain_statistics:
  "MappingStatistics_do env \<lparr>key = VNone, items = S\<rparr> x split w = Statistics_do env S x split w"
  by (simp add: MappingStatistics_do_def)

text \<open>
  C10. A key that is not \<^verbatim>\<open>None\<close> but false as a truth value is treated as no key: the
  call is the call with the key \<^verbatim>\<open>None\<close>, that is \<^verbatim>\<open>Statistics.do\<close> on the unchanged
  subject, in the world that the truth test of the key leaves. The truth test of a key
  that is a built-in value (neither a callable nor an object of another class) leaves
  the world as it is, and the empty string and the number 0 test false.
\<close>

theorem falsy_key_is_no_key:
  assumes "ky \<noteq> VNone" and "truth_value env ky w = (Inr False, w')"
  shows "MappingStatistics_do env \<lparr>key = ky, items = S\<rparr> x split w =
           MappingStatistics_do env \<lparr>key = VNone, items = S\<rparr> x split w' \<and>
         MappingStatistics_do env \<lparr>key = ky, items = S\<rparr> x split w = Statistics_do env S x split w' \<and>
         ((\<forall>c. ky \<noteq> VFun c) \<and> (\<forall>a. ky \<noteq> VObj a) \<longrightarrow> w' = w) \<and>
         truth_value env (VStr []) w = (Inr False, w) \<and>
         truth_value env (VInt 0) w = (Inr False, w)"
proof -
  from assms(2) have "(\<forall>c. ky \<noteq> VFun c) \<and> (\<forall>a. ky \<noteq> VObj a) \<longrightarrow> w' = w"
    by (cases "(env, ky, w)" rule: truth_value.cases) auto
  with assms(2) show ?thesis by (simp add: MappingStatistics_do_def)
qed

theorem falsy_key_is_no_key_witness:
  "MappingStatistics_do example_env \<lparr>key = VStr [], items = [(''shape'', VStr ''shape'')]\<rparr>
     (VObj 0) False 0 = (Inr [(''shape'', VTuple [VInt 100, VInt 100])], 0) \<and>
   MappingStatistics_do example_env \<lparr>key = VInt 0, items = [(''shape'', VStr ''shape'')]\<rparr>
     (VObj 0) False 0 = (Inr [(''shape'', VTuple [VInt 100, VInt 100])], 0) \<and>
   MappingStatistics_do example_env \<lparr>key = VFun 5, items = [(''shape'', VStr ''shape'')]\<rparr>
     (VObj 0) False 0 = (Inr [(''shape'', VTuple [VInt 100, VInt 100])], 0)"
proof -
  have run: "Statistics_do example_env [(''shape'', VStr ''shape'')] (VObj 0) False 0 =
      (Inr [(''shape'', VTuple [VInt 100, VInt 100])], 0)"
    by (simp add: Statistics_do_def store_def example_env_def)
  have k1: "VStr [] \<noteq> VNone" "truth_value example_env (VStr []) 0 = (Inr False, 0)"
    by simp_all
  have k2: "VInt 0 \<noteq> VNone" "truth_value example_env (VInt 0) 0 = (Inr False, 0)"
    by simp_all
  have k3: "VFun 5 \<noteq> VNone" "truth_value example_env (VFun 5) 0 = (Inr False, 0)"
    by (simp_all add: example_env_def)
  from falsy_key_is_no_key [OF k1, THEN conjunct2, THEN conjunct1]
    falsy_key_is_no_key [OF k2, THEN conjunct2, THEN conjunct1]
    falsy_key_is_no_key [OF k3, THEN conjunct2, THEN conjunct1] run
  show ?thesis by simp
qed

text \<open>A truth test that raises ends the call with its exception.\<close>

lemma key_truth_test_raises:
  "truth_value env ky w = (Inl e, w') \<Longrightarrow>
   MappingStatistics_do env \<lparr>key = ky, items = S\<rparr> x split w = (Inl e, w')"
  by (simp add: MappingStatistics_do_def)

text \<open>
  C4 (the source departs from the claim). The claim: with a key set,
  \<^verbatim>\<open>MappingStatistics.do\<close> evaluates the key on every element of the subject, in order,
  and applies the statistics to the collection of the results. The source hands the
  results to \<^verbatim>\<open>np.array\<close>, and the module never imports \<^verbatim>\<open>numpy\<close> nor binds \<^verbatim>\<open>np\<close>
  otherwise: with the key \<^verbatim>\<open>'mean'\<close>, as in the docstring's example, the call fails with
  \<^verbatim>\<open>NameError: name 'np' is not defined\<close> before any element is looked at.
\<close>

theorem projection_NameError:
  "MappingStatistics_do example_env
     \<lparr>key = VStr ''mean'', items = [(''mean'', VFun 2), (''max'', VFun 2)]\<rparr> (VObj 0) False 0 =
   (Inl (NameError ''np''), 0)"
  by (simp add: example_env_def module_namespace_def MappingStatistics_do_def)

text \<open>
  The same for every key that is true as a truth value while the module binds no
  \<^verbatim>\<open>np\<close>. Were \<^verbatim>\<open>np\<close> bound to a module whose \<^verbatim>\<open>array\<close> is callable, the call would be
  \<^verbatim>\<open>Statistics.do\<close> on what \<^verbatim>\<open>array\<close> returns for the list of the projected elements.
\<close>

lemma projection_unbound_np:
  "truth_value env ky w = (Inr True, w0) \<Longrightarrow> py_globals env ''np'' = None \<Longrightarrow>
   MappingStatistics_do env \<lparr>key = ky, items = S\<rparr> x split w = (Inl (NameError ''np''), w0)"
  by (simp add: MappingStatistics_do_def)

lemma projection_bound_np:
  "truth_value env ky w = (Inr True, w0) \<Longrightarrow> py_globals env ''np'' = Some np \<Longrightarrow>
   py_getattr env np ''array'' = Some (VFun a) \<Longrightarrow>
   elements env x = Some xs \<Longrightarrow> project env ky xs w0 = (Inr vs, w1) \<Longrightarrow>
   py_call env a [VList vs] w1 = (Inr arr, w2) \<Longrightarrow>
   MappingStatistics_do env \<lparr>key = ky, items = S\<rparr> x split w = Statistics_do env S arr split w2"
  by (simp add: MappingStatistics_do_def)

end
